theory Spec2Isabelle
  imports Complex_Main "HOL-Library.Word" "HOL-Library.AList"
begin

section \<open>JavaScript values carried by the whiteboard server\<close>

text \<open>
  The server (\<^verbatim>\<open>server.js\<close>, the second part of \<^verbatim>\<open>src/next.config.ts\<close>) is a
  Socket.io event handler over three pieces of process-wide state: the map
  \<^verbatim>\<open>connectedSockets\<close>, the array \<^verbatim>\<open>strokes\<close> and the number \<^verbatim>\<open>hueSeed\<close>.

  A JavaScript string is a sequence of 16-bit code units; \<^verbatim>\<open>===\<close>, \<^verbatim>\<open>slice\<close> and
  \<^verbatim>\<open>trim\<close> all work on code units, so a string is a list of 16-bit words.
\<close>

type_synonym cu = "16 word"
type_synonym jsstring = "cu list"

text \<open>A string literal of the source, written with Isabelle's ASCII characters.\<close>

definition str :: "string \<Rightarrow> jsstring" where
  "str s = map of_char s"

text \<open>
  An event payload is whatever the client sent. Numbers are only compared by \<^verbatim>\<open>typeof\<close>
  and copied, never computed with, so a real number stands for a JavaScript number.
  An array behaves like an object without any of the properties the handlers read.
\<close>

datatype jsval =
    Undefined
  | Null
  | Bool bool
  | Num real
  | Str jsstring
  | Obj "(jsstring \<times> jsval) list"

text \<open>\<^verbatim>\<open>payload?.k\<close>: \<^verbatim>\<open>undefined\<close> unless the payload is an object holding \<open>k\<close>.\<close>

fun getProp :: "jsval \<Rightarrow> string \<Rightarrow> jsval" where
  "getProp (Obj kvs) k = (case map_of kvs (str k) of Some v \<Rightarrow> v | None \<Rightarrow> Undefined)"
| "getProp _ k = Undefined"

text \<open>\<^verbatim>\<open>v ?? null\<close>: only \<^verbatim>\<open>undefined\<close> and \<^verbatim>\<open>null\<close> are replaced.\<close>

fun orNull :: "jsval \<Rightarrow> jsval" where
  "orNull Undefined = Null"
| "orNull Null = Null"
| "orNull v = v"

text \<open>\<^verbatim>\<open>typeof v === 'string' ? v : d\<close>.\<close>

fun stringOr :: "jsval \<Rightarrow> jsstring \<Rightarrow> jsstring" where
  "stringOr (Str s) d = s"
| "stringOr _ d = d"

text \<open>\<^verbatim>\<open>typeof v === 'number' ? v : d\<close>.\<close>

fun numberOr :: "jsval \<Rightarrow> real \<Rightarrow> real" where
  "numberOr (Num n) d = n"
| "numberOr _ d = d"

text \<open>
  \<^verbatim>\<open>s || d\<close> where \<open>s\<close> is a string or \<^verbatim>\<open>undefined\<close> (\<open>None\<close>): \<^verbatim>\<open>undefined\<close> and
  the empty string are falsy.
\<close>

fun orElse :: "jsstring option \<Rightarrow> jsstring \<Rightarrow> jsstring" where
  "orElse None d = d"
| "orElse (Some s) d = (if s \<noteq> [] then s else d)"

subsection \<open>Whitespace, trimming, decimal numerals\<close>

text \<open>
  ECMAScript's WhiteSpace and LineTerminator code points, which both
  \<^verbatim>\<open>String.prototype.trim\<close> and the regular expression class \<^verbatim>\<open>\s\<close> use.
\<close>

definition isWhiteSpace :: "cu \<Rightarrow> bool" where
  "isWhiteSpace c \<longleftrightarrow>
     c \<in> {0x09, 0x0A, 0x0B, 0x0C, 0x0D, 0x20, 0xA0, 0x1680,
          0x2028, 0x2029, 0x202F, 0x205F, 0x3000, 0xFEFF}
     \<or> (0x2000 \<le> c \<and> c \<le> 0x200A)"

definition trim :: "jsstring \<Rightarrow> jsstring" where
  "trim s = rev (dropWhile isWhiteSpace (rev (dropWhile isWhiteSpace s)))"

text \<open>\<^verbatim>\<open>s.slice(0, n)\<close>.\<close>

definition slice0 :: "nat \<Rightarrow> jsstring \<Rightarrow> jsstring" where
  "slice0 n s = take n s"

definition digitChar :: "nat \<Rightarrow> cu" where
  "digitChar d = of_nat (48 + d)"

text \<open>How a template literal prints a non-negative integer.\<close>

fun toDecimal :: "nat \<Rightarrow> jsstring" where
  "toDecimal n = (if n < 10 then [digitChar n] else toDecimal (n div 10) @ [digitChar (n mod 10)])"

declare toDecimal.simps [simp del]

definition isDigit :: "cu \<Rightarrow> bool" where
  "isDigit c \<longleftrightarrow> 0x30 \<le> c \<and> c \<le> 0x39"

text \<open>\<^verbatim>\<open>Number(ds)\<close> for a string of decimal digits.\<close>

definition fromDecimal :: "jsstring \<Rightarrow> nat" where
  "fromDecimal ds = foldl (\<lambda>acc c. 10 * acc + (unat c - 48)) 0 ds"

text \<open>
  \<^verbatim>\<open>Math.floor(Math.random() * n)\<close>: some integer in \<open>[0, n)\<close>. The draw is an input of
  the model; \<open>r\<close> is the entropy the generator supplied.
\<close>

definition randomBelow :: "nat \<Rightarrow> nat \<Rightarrow> nat" where
  "randomBelow n r = r mod n"

section \<open>Hue allocator\<close>

text \<open>\<^verbatim>\<open>makeColorFromHue\<close>: the template \<^verbatim>\<open>`hsl(${hue} 90% 50%)`\<close>.\<close>

definition makeColorFromHue :: "nat \<Rightarrow> jsstring" where
  "makeColorFromHue hue = str ''hsl('' @ toDecimal hue @ str '' 90% 50%)''"

text \<open>
  The regular expression \<^verbatim>\<open>/hsl\(\s*(\d{1,3})/i\<close> tried at the start of a string:
  the letters in either case, the parenthesis, any whitespace, then one to three digits
  (greedy). The result is the captured group.
\<close>

fun matchHere :: "jsstring \<Rightarrow> jsstring option" where
  "matchHere (h # s # l # p # rest) =
     (if h \<in> {0x68, 0x48} \<and> s \<in> {0x73, 0x53} \<and> l \<in> {0x6C, 0x4C} \<and> p = 0x28
      then (let ds = take 3 (takeWhile isDigit (dropWhile isWhiteSpace rest))
            in if ds = [] then None else Some ds)
      else None)"
| "matchHere _ = None"

text \<open>\<^verbatim>\<open>color.match(...)\<close>: the leftmost position where the expression matches.\<close>

fun regexMatch :: "jsstring \<Rightarrow> jsstring option" where
  "regexMatch [] = None"
| "regexMatch (c # t) =
     (case matchHere (c # t) of Some ds \<Rightarrow> Some ds | None \<Rightarrow> regexMatch t)"

text \<open>
  \<^verbatim>\<open>parseHueFromColorString\<close>. Its argument is a registry entry's colour, which is
  always a string; the captured digits are a finite number, clamped to \<open>[0, 359]\<close>.
\<close>

definition parseHueFromColorString :: "jsstring \<Rightarrow> nat option" where
  "parseHueFromColorString color =
     (case regexMatch color of
        None \<Rightarrow> None
      | Some ds \<Rightarrow> Some (max 0 (min 359 (fromDecimal ds))))"

text \<open>
  A registry entry \<^verbatim>\<open>{ color, hue, name }\<close>. \<open>meta_hue = None\<close> stands for an entry
  whose \<^verbatim>\<open>hue\<close> is not a number, the case \<^verbatim>\<open>getUsedHues\<close> provides for.
\<close>

record meta =
  meta_color :: jsstring
  meta_hue :: "nat option"
  meta_name :: jsstring

text \<open>
  \<^verbatim>\<open>connectedSockets\<close> is a JavaScript \<^verbatim>\<open>Map\<close>: keys are unique and are iterated in
  insertion order; \<^verbatim>\<open>set\<close> on a present key keeps its place. \<open>AList.update\<close>,
  \<open>AList.delete\<close> and \<open>map_of\<close> are \<^verbatim>\<open>set\<close>, \<^verbatim>\<open>delete\<close> and \<^verbatim>\<open>get\<close>.
\<close>

type_synonym registry = "(jsstring \<times> meta) list"

text \<open>One iteration of the loop in \<^verbatim>\<open>getUsedHues\<close>.\<close>

definition addUsed :: "meta \<Rightarrow> nat set \<Rightarrow> nat set" where
  "addUsed m used =
     (case meta_hue m of
        Some h \<Rightarrow> insert h used
      | None \<Rightarrow>
          (if meta_color m \<noteq> []
           then (case parseHueFromColorString (meta_color m) of
                   Some parsed \<Rightarrow> insert parsed used
                 | None \<Rightarrow> used)
           else used))"

definition getUsedHues :: "registry \<Rightarrow> nat set" where
  "getUsedHues conns = fold addUsed (map snd conns) {}"

text \<open>
  The probing loop of \<^verbatim>\<open>assignUniqueHue\<close>, from iteration \<open>i\<close> on: the first hue
  \<^verbatim>\<open>(hueSeed + i * golden) % 360\<close> not in \<open>used\<close>, or \<open>None\<close> when the loop runs out.
\<close>

function probe :: "nat set \<Rightarrow> nat \<Rightarrow> nat \<Rightarrow> nat option" where
  "probe used seed i =
     (if i < 360
      then (if (seed + i * 137) mod 360 \<notin> used
            then Some ((seed + i * 137) mod 360)
            else probe used seed (i + 1))
      else None)"
  by pat_completeness auto
termination
  by (relation "measure (\<lambda>(used, seed, i). 360 - i)") auto

declare probe.simps [simp del]

text \<open>
  \<^verbatim>\<open>assignUniqueHue\<close> with the global \<^verbatim>\<open>hueSeed\<close> passed in and out: the result is the
  hue and the new seed. \<open>r\<close> is the random draw of the fallback.
\<close>

definition assignUniqueHue :: "nat \<Rightarrow> registry \<Rightarrow> nat \<Rightarrow> nat \<times> nat" where
  "assignUniqueHue seed conns r =
     (case probe (getUsedHues conns) seed 0 of
        Some hue \<Rightarrow> (hue, (hue + 137) mod 360)
      | None \<Rightarrow> (randomBelow 360 r, seed))"

section \<open>Server state and outbound messages\<close>

text \<open>An entry of \<^verbatim>\<open>strokes\<close>: the \<^verbatim>\<open>safePayload\<close> object built by the draw handler.\<close>

record stroke =
  stroke_x :: jsval
  stroke_y :: jsval
  stroke_prevX :: jsval
  stroke_prevY :: jsval
  stroke_color :: jsstring
  stroke_lineWidth :: real
  stroke_username :: jsstring
  stroke_authorId :: jsstring

record server =
  connectedSockets :: registry
  strokes :: "stroke list"
  hueSeed :: nat

text \<open>The state when the process starts; \<open>r\<close> is the draw that seeds \<^verbatim>\<open>hueSeed\<close>.\<close>

definition initial :: "nat \<Rightarrow> server" where
  "initial r = \<lparr>connectedSockets = [], strokes = [], hueSeed = randomBelow 360 r\<rparr>"

text \<open>
  Where a message goes: \<^verbatim>\<open>socket.emit\<close> (that socket only), \<^verbatim>\<open>io.emit\<close> (every
  connected socket) or \<^verbatim>\<open>socket.broadcast.emit\<close> (every connected socket but that one).
\<close>

datatype target = Socket jsstring | IO | Broadcast jsstring

datatype message =
    Init jsstring jsstring
  | BoardState "stroke list"
  | Users nat
  | Presence nat "(jsstring \<times> jsstring \<times> jsstring) list"
  | Draw stroke
  | Clear

type_synonym emission = "target \<times> message"

fun receives :: "jsstring \<Rightarrow> target \<Rightarrow> bool" where
  "receives c (Socket s) = (c = s)"
| "receives c IO = True"
| "receives c (Broadcast s) = (c \<noteq> s)"

text \<open>The messages a connected client \<open>c\<close> is sent, in order.\<close>

definition inbox :: "jsstring \<Rightarrow> emission list \<Rightarrow> message list" where
  "inbox c out = map snd (filter (\<lambda>e. receives c (fst e)) out)"

definition broadcastUsersCount :: "server \<Rightarrow> emission" where
  "broadcastUsersCount st = (IO, Users (length (connectedSockets st)))"

definition broadcastPresence :: "server \<Rightarrow> emission" where
  "broadcastPresence st =
     (let users = map (\<lambda>(id, m). (id, meta_name m, meta_color m)) (connectedSockets st)
      in (IO, Presence (length users) users))"

text \<open>\<^verbatim>\<open>freeHueFor\<close> looks the entry up and does nothing.\<close>

definition freeHueFor :: "jsstring \<Rightarrow> server \<Rightarrow> server" where
  "freeHueFor socketId st = (case map_of (connectedSockets st) socketId of None \<Rightarrow> st | Some m \<Rightarrow> st)"

definition emitBoardState :: "target \<Rightarrow> server \<Rightarrow> emission" where
  "emitBoardState tgt st = (tgt, BoardState (strokes st))"

text \<open>\<^verbatim>\<open>`User-${Math.floor(1000 + Math.random() * 9000)}`\<close>.\<close>

definition placeholderName :: "nat \<Rightarrow> jsstring" where
  "placeholderName r = str ''User-'' @ toDecimal (1000 + randomBelow 9000 r)"

section \<open>Event handlers\<close>

text \<open>
  Each handler takes the socket's id, the payload and the random draws it may need, and
  returns the new state with the messages it emits, in order. Handlers run to completion
  one after the other, so a run of the server is a sequence of handler calls.
\<close>

type_synonym outcome = "server \<times> emission list"

definition on_connection :: "jsstring \<Rightarrow> nat \<Rightarrow> nat \<Rightarrow> server \<Rightarrow> outcome" where
  "on_connection socketId rh rn st =
     (let (hue, seed') = assignUniqueHue (hueSeed st) (connectedSockets st) rh;
          color = makeColorFromHue hue;
          defaultName = placeholderName rn;
          st' = st\<lparr>connectedSockets :=
                     AList.update socketId
                       \<lparr>meta_color = color, meta_hue = Some hue, meta_name = defaultName\<rparr>
                       (connectedSockets st),
                   hueSeed := seed'\<rparr>
      in (st', [(Socket socketId, Init color defaultName),
                emitBoardState (Socket socketId) st',
                broadcastUsersCount st',
                broadcastPresence st']))"

definition on_requestBoardState :: "jsstring \<Rightarrow> server \<Rightarrow> outcome" where
  "on_requestBoardState socketId st = (st, [emitBoardState (Socket socketId) st])"

definition on_setName :: "jsstring \<Rightarrow> jsval \<Rightarrow> nat \<Rightarrow> server \<Rightarrow> outcome" where
  "on_setName socketId payload r st =
     (let rawName = stringOr (getProp payload ''name'') [];
          sanitized = orElse (Some (slice0 24 (trim rawName))) (placeholderName r)
      in case map_of (connectedSockets st) socketId of
           Some m \<Rightarrow>
             (let st' = st\<lparr>connectedSockets :=
                              AList.update socketId (m\<lparr>meta_name := sanitized\<rparr>)
                                (connectedSockets st)\<rparr>
              in (st', [broadcastPresence st']))
         | None \<Rightarrow> (st, []))"

text \<open>The object \<^verbatim>\<open>safePayload\<close> the draw handler builds; \<open>m\<close> is \<^verbatim>\<open>connectedSockets.get(socket.id)\<close>.\<close>

definition safePayload :: "jsstring \<Rightarrow> jsval \<Rightarrow> meta option \<Rightarrow> stroke" where
  "safePayload socketId payload m =
     \<lparr>stroke_x = getProp payload ''x'',
      stroke_y = getProp payload ''y'',
      stroke_prevX = orNull (getProp payload ''prevX''),
      stroke_prevY = orNull (getProp payload ''prevY''),
      stroke_color = orElse (map_option meta_color m) (str ''#3333ff''),
      stroke_lineWidth = numberOr (getProp payload ''lineWidth'') 4,
      stroke_username = orElse (map_option meta_name m) (str ''User''),
      stroke_authorId = socketId\<rparr>"

definition on_draw :: "jsstring \<Rightarrow> jsval \<Rightarrow> server \<Rightarrow> outcome" where
  "on_draw socketId payload st =
     (let s = safePayload socketId payload (map_of (connectedSockets st) socketId)
      in (st\<lparr>strokes := strokes st @ [s]\<rparr>, [(Broadcast socketId, Draw s)]))"

text \<open>
  The filter shared by \<^verbatim>\<open>clear\<close> and \<^verbatim>\<open>clearMine\<close>. \<^verbatim>\<open>meta?.name\<close> and \<^verbatim>\<open>meta?.color\<close>
  are \<^verbatim>\<open>undefined\<close> without a registry entry, and \<^verbatim>\<open>!==\<close> against \<^verbatim>\<open>undefined\<close> holds
  for every string.
\<close>

definition notMine :: "jsstring \<Rightarrow> meta option \<Rightarrow> stroke \<Rightarrow> bool" where
  "notMine socketId m s \<longleftrightarrow>
     stroke_authorId s \<noteq> socketId
     \<and> Some (stroke_username s) \<noteq> map_option meta_name m
     \<and> Some (stroke_color s) \<noteq> map_option meta_color m"

definition on_clear :: "jsstring \<Rightarrow> server \<Rightarrow> outcome" where
  "on_clear socketId st =
     (let m = map_of (connectedSockets st) socketId;
          st' = st\<lparr>strokes := filter (notMine socketId m) (strokes st)\<rparr>
      in (st', [emitBoardState IO st']))"

definition on_clearMine :: "jsstring \<Rightarrow> server \<Rightarrow> outcome" where
  "on_clearMine socketId st =
     (let m = map_of (connectedSockets st) socketId;
          st' = st\<lparr>strokes := filter (notMine socketId m) (strokes st)\<rparr>
      in (st', [emitBoardState IO st']))"

text \<open>
  \<^verbatim>\<open>color\<close> is the payload's string or \<^verbatim>\<open>null\<close>; \<^verbatim>\<open>!color\<close> holds for \<^verbatim>\<open>null\<close> and for
  the empty string.
\<close>

definition on_clearByColor :: "jsstring \<Rightarrow> jsval \<Rightarrow> server \<Rightarrow> outcome" where
  "on_clearByColor socketId payload st =
     (case getProp payload ''color'' of
        Str color \<Rightarrow>
          (if color = [] then (st, [])
           else (let st' = st\<lparr>strokes := filter (\<lambda>s. stroke_color s \<noteq> color) (strokes st)\<rparr>
                 in (st', [emitBoardState IO st'])))
      | _ \<Rightarrow> (st, []))"

definition on_clearByUsername :: "jsstring \<Rightarrow> jsval \<Rightarrow> server \<Rightarrow> outcome" where
  "on_clearByUsername socketId payload st =
     (let name = (case getProp payload ''username'' of Str u \<Rightarrow> trim u | _ \<Rightarrow> [])
      in if name = [] then (st, [])
         else (let st' = st\<lparr>strokes :=
                              filter (\<lambda>s. trim (orElse (Some (stroke_username s)) []) \<noteq> name)
                                (strokes st)\<rparr>
               in (st', [emitBoardState IO st'])))"

definition on_clearByAuthor :: "jsstring \<Rightarrow> jsval \<Rightarrow> server \<Rightarrow> outcome" where
  "on_clearByAuthor socketId payload st =
     (let authorId = stringOr (getProp payload ''authorId'') []
      in if authorId = [] then (st, [])
         else (let st' = st\<lparr>strokes := filter (\<lambda>s. stroke_authorId s \<noteq> authorId) (strokes st)\<rparr>
               in (st', [emitBoardState IO st'])))"

definition on_requestClearAll :: "jsstring \<Rightarrow> server \<Rightarrow> outcome" where
  "on_requestClearAll socketId st =
     (let st' = st\<lparr>strokes := []\<rparr>
      in (st', [(IO, Clear), emitBoardState IO st']))"

definition on_disconnect :: "jsstring \<Rightarrow> server \<Rightarrow> outcome" where
  "on_disconnect socketId st =
     (let st' = freeHueFor socketId
                  (st\<lparr>connectedSockets := AList.delete socketId (connectedSockets st)\<rparr>)
      in (st', [broadcastUsersCount st', broadcastPresence st']))"

section \<open>Runs of the server\<close>

datatype event =
    Connection jsstring nat nat
  | RequestBoardState jsstring
  | SetName jsstring jsval nat
  | DrawEvent jsstring jsval
  | ClearEvent jsstring
  | ClearMine jsstring
  | ClearByColor jsstring jsval
  | ClearByUsername jsstring jsval
  | ClearByAuthor jsstring jsval
  | RequestClearAll jsstring
  | Disconnect jsstring

fun dispatch :: "event \<Rightarrow> server \<Rightarrow> outcome" where
  "dispatch (Connection c rh rn) st = on_connection c rh rn st"
| "dispatch (RequestBoardState c) st = on_requestBoardState c st"
| "dispatch (SetName c payload r) st = on_setName c payload r st"
| "dispatch (DrawEvent c payload) st = on_draw c payload st"
| "dispatch (ClearEvent c) st = on_clear c st"
| "dispatch (ClearMine c) st = on_clearMine c st"
| "dispatch (ClearByColor c payload) st = on_clearByColor c payload st"
| "dispatch (ClearByUsername c payload) st = on_clearByUsername c payload st"
| "dispatch (ClearByAuthor c payload) st = on_clearByAuthor c payload st"
| "dispatch (RequestClearAll c) st = on_requestClearAll c st"
| "dispatch (Disconnect c) st = on_disconnect c st"

text \<open>The state after a sequence of events, and everything emitted on the way.\<close>

fun exec :: "event list \<Rightarrow> server \<Rightarrow> server" where
  "exec [] st = st"
| "exec (e # es) st = exec es (fst (dispatch e st))"

fun emitted :: "event list \<Rightarrow> server \<Rightarrow> emission list" where
  "emitted [] st = []"
| "emitted (e # es) st = snd (dispatch e st) @ emitted es (fst (dispatch e st))"

text \<open>The hues \<^verbatim>\<open>assignUniqueHue\<close> returns to the connection handler during a run, in order.\<close>

fun assignedHues :: "event list \<Rightarrow> server \<Rightarrow> nat list" where
  "assignedHues [] st = []"
| "assignedHues (Connection c rh rn # es) st =
     fst (assignUniqueHue (hueSeed st) (connectedSockets st) rh)
       # assignedHues es (fst (dispatch (Connection c rh rn) st))"
| "assignedHues (e # es) st = assignedHues es (fst (dispatch e st))"

fun isConnection :: "event \<Rightarrow> bool" where
  "isConnection (Connection c rh rn) = True"
| "isConnection _ = False"

text \<open>The events that remove strokes from the log.\<close>

fun isClearing :: "event \<Rightarrow> bool" where
  "isClearing (ClearEvent c) = True"
| "isClearing (ClearMine c) = True"
| "isClearing (ClearByColor c payload) = True"
| "isClearing (ClearByUsername c payload) = True"
| "isClearing (ClearByAuthor c payload) = True"
| "isClearing (RequestClearAll c) = True"
| "isClearing _ = False"

text \<open>
  A run in which Socket.io's guarantee holds that a connecting socket's id is not the id
  of a live connection, and in which at most \<open>n\<close> connections are live after every event.
\<close>

fun admissible :: "nat \<Rightarrow> event list \<Rightarrow> server \<Rightarrow> bool" where
  "admissible n [] st = True"
| "admissible n (e # es) st =
     ((case e of Connection c rh rn \<Rightarrow> map_of (connectedSockets st) c = None | _ \<Rightarrow> True)
      \<and> length (connectedSockets (fst (dispatch e st))) \<le> n
      \<and> admissible n es (fst (dispatch e st)))"

text \<open>The \<^verbatim>\<open>hue\<close> fields of the registry's entries, in the registry's order.\<close>

definition heldHues :: "registry \<Rightarrow> nat option list" where
  "heldHues reg = map (meta_hue \<circ> snd) reg"

text \<open>The strokes broadcast by draw handlers, in order.\<close>

definition drawn :: "emission list \<Rightarrow> stroke list" where
  "drawn out = concat (map (\<lambda>e. case snd e of Draw s \<Rightarrow> [s] | _ \<Rightarrow> []) out)"

section \<open>A small board used in the examples\<close>

definition sampleStroke :: "string \<Rightarrow> string \<Rightarrow> string \<Rightarrow> stroke" where
  "sampleStroke author username color =
     \<lparr>stroke_x = Num 10, stroke_y = Num 20, stroke_prevX = Null, stroke_prevY = Null,
      stroke_color = str color, stroke_lineWidth = 4,
      stroke_username = str username, stroke_authorId = str author\<rparr>"

definition annMeta :: meta where
  "annMeta = \<lparr>meta_color = str ''hsl(10 90% 50%)'', meta_hue = Some 10, meta_name = str ''Ann''\<rparr>"

definition bobMeta :: meta where
  "bobMeta = \<lparr>meta_color = str ''hsl(147 90% 50%)'', meta_hue = Some 147, meta_name = str ''Bob''\<rparr>"

text \<open>
  Two live connections \<open>a\<close> (Ann) and \<open>b\<close> (Bob), and five strokes: one by each of them,
  and three by a connection \<open>z\<close> that has left, of which one carries Ann's name and one
  Ann's colour.
\<close>

definition sampleServer :: server where
  "sampleServer =
     \<lparr>connectedSockets = [(str ''a'', annMeta), (str ''b'', bobMeta)],
      strokes =
        [sampleStroke ''a'' ''Ann'' ''hsl(10 90% 50%)'',
         sampleStroke ''b'' ''Bob'' ''hsl(147 90% 50%)'',
         sampleStroke ''z'' ''Ann'' ''hsl(284 90% 50%)'',
         sampleStroke ''z'' ''Zed'' ''hsl(10 90% 50%)'',
         sampleStroke ''z'' ''Zed'' ''hsl(284 90% 50%)''],
      hueSeed = 61\<rparr>"

text \<open>
  A run from the start of the process: \<open>a\<close> connects and draws a dot, \<open>b\<close> connects,
  \<open>a\<close> renames itself, \<open>b\<close> draws a segment, \<open>a\<close> leaves and \<open>c\<close> connects.
\<close>

definition sampleRun :: "event list" where
  "sampleRun =
     [Connection (str ''a'') 0 0,
      DrawEvent (str ''a'') (Obj [(str ''x'', Num 1), (str ''y'', Num 2), (str ''lineWidth'', Num 3)]),
      Connection (str ''b'') 0 1,
      SetName (str ''a'') (Obj [(str ''name'', Str (str ''Ann''))]) 0,
      DrawEvent (str ''b'') (Obj [(str ''x'', Num 5), (str ''y'', Num 6), (str ''prevX'', Num 1),
                                   (str ''prevY'', Num 2)]),
      Disconnect (str ''a''),
      Connection (str ''c'') 0 2]"

section \<open>Payload helpers\<close>

lemma numberOr_default: "(\<forall>n. v \<noteq> Num n) \<Longrightarrow> numberOr v d = d"
  by (cases v) auto

lemma orNull_Null_iff: "orNull v = Null \<longleftrightarrow> v \<in> {Undefined, Null}"
  by (cases v) auto

lemma orNull_present: "v \<notin> {Undefined, Null} \<Longrightarrow> orNull v = v"
  by (cases v) auto

lemma on_draw_appends:
  "on_draw c payload st =
     (st\<lparr>strokes := strokes st @ [safePayload c payload (map_of (connectedSockets st) c)]\<rparr>,
      [(Broadcast c, Draw (safePayload c payload (map_of (connectedSockets st) c)))])"
  by (simp add: on_draw_def Let_def)

lemma notMine_Some:
  "notMine c (Some m) =
     (\<lambda>s. stroke_authorId s \<noteq> c \<and> stroke_username s \<noteq> meta_name m
           \<and> stroke_color s \<noteq> meta_color m)"
  by (rule ext) (simp add: notMine_def)

lemmas sample_defs =
  sampleServer_def sampleStroke_def annMeta_def bobMeta_def str_def

lemmas run_defs =
  sampleRun_def initial_def randomBelow_def on_connection_def assignUniqueHue_def
  getUsedHues_def addUsed_def probe.simps makeColorFromHue_def placeholderName_def
  toDecimal.simps digitChar_def str_def on_draw_def safePayload_def on_setName_def
  on_disconnect_def freeHueFor_def emitBoardState_def broadcastUsersCount_def
  broadcastPresence_def Let_def trim_def slice0_def isWhiteSpace_def AList.delete_eq

section \<open>Clearing\<close>

text \<open>
  C2. After \<^verbatim>\<open>clearMine\<close>, and after the legacy \<^verbatim>\<open>clear\<close>, from a connection \<open>c\<close> whose
  registry entry is \<open>m\<close>, the stroke log is the previous log restricted, in order, to the
  strokes whose author id differs from \<open>c\<close> and whose recorded name differs from \<open>m\<close>'s
  name and whose colour differs from \<open>m\<close>'s colour: a stroke matching any one of the
  three is removed.
\<close>

theorem clearMine_keeps_exactly_unmatched:
  assumes "map_of (connectedSockets st) c = Some m"
  shows "strokes (fst (on_clearMine c st)) =
           filter (\<lambda>s. stroke_authorId s \<noteq> c \<and> stroke_username s \<noteq> meta_name m
                        \<and> stroke_color s \<noteq> meta_color m) (strokes st)
         \<and> strokes (fst (on_clear c st)) =
           filter (\<lambda>s. stroke_authorId s \<noteq> c \<and> stroke_username s \<noteq> meta_name m
                        \<and> stroke_color s \<noteq> meta_color m) (strokes st)"
  using assms by (simp add: on_clearMine_def on_clear_def notMine_Some Let_def)

text \<open>On the sample board, Ann's clear leaves Bob's stroke and the unrelated one.\<close>

theorem clearMine_keeps_exactly_unmatched_witness:
  "map_of (connectedSockets sampleServer) (str ''a'') = Some annMeta
   \<and> strokes (fst (on_clearMine (str ''a'') sampleServer)) =
       [sampleStroke ''b'' ''Bob'' ''hsl(147 90% 50%)'',
        sampleStroke ''z'' ''Zed'' ''hsl(284 90% 50%)'']
   \<and> strokes (fst (on_clear (str ''a'') sampleServer)) =
       [sampleStroke ''b'' ''Bob'' ''hsl(147 90% 50%)'',
        sampleStroke ''z'' ''Zed'' ''hsl(284 90% 50%)'']"
proof -
  have h: "map_of (connectedSockets sampleServer) (str ''a'') = Some annMeta"
    by (simp add: sample_defs)
  show ?thesis
    using h clearMine_keeps_exactly_unmatched [OF h]
    by (simp add: sample_defs)
qed

text \<open>
  C3. After \<^verbatim>\<open>clearByColor\<close> with a non-empty colour string \<open>C\<close>, the log is the previous
  log without the strokes of colour \<open>C\<close>: none of that colour remains, and every stroke
  of another colour is still there.
\<close>

theorem clearByColor_removes_exactly_that_color:
  assumes "getProp payload ''color'' = Str C" and "C \<noteq> []"
  shows "strokes (fst (on_clearByColor c payload st)) =
           filter (\<lambda>s. stroke_color s \<noteq> C) (strokes st)
         \<and> (\<forall>s \<in> set (strokes (fst (on_clearByColor c payload st))). stroke_color s \<noteq> C)
         \<and> (\<forall>s \<in> set (strokes st).
               stroke_color s \<noteq> C \<longrightarrow> s \<in> set (strokes (fst (on_clearByColor c payload st))))"
  using assms by (simp add: on_clearByColor_def Let_def)

theorem clearByColor_removes_exactly_that_color_witness:
  "strokes (fst (on_clearByColor (str ''b'')
                   (Obj [(str ''color'', Str (str ''hsl(10 90% 50%)''))]) sampleServer)) =
     [sampleStroke ''b'' ''Bob'' ''hsl(147 90% 50%)'',
      sampleStroke ''z'' ''Ann'' ''hsl(284 90% 50%)'',
      sampleStroke ''z'' ''Zed'' ''hsl(284 90% 50%)'']"
proof -
  have h: "getProp (Obj [(str ''color'', Str (str ''hsl(10 90% 50%)''))]) ''color''
             = Str (str ''hsl(10 90% 50%)'')"
    by (simp add: str_def)
  have n: "str ''hsl(10 90% 50%)'' \<noteq> []"
    by (simp add: str_def)
  show ?thesis
    using clearByColor_removes_exactly_that_color [OF h n, of "str ''b''" sampleServer]
    by (simp add: sample_defs)
qed

text \<open>
  C4. After \<^verbatim>\<open>requestClearAll\<close> the log is empty, and the handler emits to every
  connected socket the \<^verbatim>\<open>clear\<close> signal and then a board state with no strokes; so each
  client, the requester included, is sent exactly these two messages, in this order.
\<close>

theorem requestClearAll_wipes_everyone:
  "strokes (fst (on_requestClearAll c st)) = []
   \<and> snd (on_requestClearAll c st) = [(IO, Clear), (IO, BoardState [])]
   \<and> inbox client (snd (on_requestClearAll c st)) = [Clear, BoardState []]"
  by (simp add: on_requestClearAll_def emitBoardState_def inbox_def Let_def)

text \<open>Each selective clear returns at once on a bad argument.\<close>

lemma clearByColor_bad:
  "(\<forall>C. getProp payload ''color'' \<noteq> Str C) \<or> getProp payload ''color'' = Str []
     \<Longrightarrow> on_clearByColor c payload st = (st, [])"
  by (cases "getProp payload ''color''") (auto simp: on_clearByColor_def)

lemma clearByUsername_bad:
  "(\<forall>u. getProp payload ''username'' \<noteq> Str u)
     \<or> (\<exists>u. getProp payload ''username'' = Str u \<and> trim u = [])
     \<Longrightarrow> on_clearByUsername c payload st = (st, [])"
  by (cases "getProp payload ''username''") (auto simp: on_clearByUsername_def)

lemma clearByAuthor_bad:
  "(\<forall>a. getProp payload ''authorId'' \<noteq> Str a) \<or> getProp payload ''authorId'' = Str []
     \<Longrightarrow> on_clearByAuthor c payload st = (st, [])"
  by (cases "getProp payload ''authorId''") (auto simp: on_clearByAuthor_def)

text \<open>
  C9. A selective clear whose argument is missing, not a string or empty (for
  \<^verbatim>\<open>clearByUsername\<close>: empty once trimmed) changes nothing and emits nothing.
\<close>

theorem selective_clear_rejects_bad_argument:
  "((\<forall>C. getProp payload ''color'' \<noteq> Str C) \<or> getProp payload ''color'' = Str []
      \<longrightarrow> on_clearByColor c payload st = (st, []))
   \<and> ((\<forall>u. getProp payload ''username'' \<noteq> Str u)
        \<or> (\<exists>u. getProp payload ''username'' = Str u \<and> trim u = [])
      \<longrightarrow> on_clearByUsername c payload st = (st, []))
   \<and> ((\<forall>a. getProp payload ''authorId'' \<noteq> Str a) \<or> getProp payload ''authorId'' = Str []
      \<longrightarrow> on_clearByAuthor c payload st = (st, []))"
  using clearByColor_bad clearByUsername_bad clearByAuthor_bad by blast

text \<open>
  A payload with a numeric colour, a blank user name and an empty author id, and a
  payload that is not an object at all.
\<close>

theorem selective_clear_rejects_bad_argument_witness:
  "on_clearByColor (str ''a'')
     (Obj [(str ''color'', Num 3), (str ''username'', Str (str ''  '')),
           (str ''authorId'', Str [])]) sampleServer = (sampleServer, [])
   \<and> on_clearByUsername (str ''a'')
     (Obj [(str ''color'', Num 3), (str ''username'', Str (str ''  '')),
           (str ''authorId'', Str [])]) sampleServer = (sampleServer, [])
   \<and> on_clearByAuthor (str ''a'')
     (Obj [(str ''color'', Num 3), (str ''username'', Str (str ''  '')),
           (str ''authorId'', Str [])]) sampleServer = (sampleServer, [])
   \<and> on_clearByColor (str ''a'') Undefined sampleServer = (sampleServer, [])
   \<and> on_clearByUsername (str ''a'') Undefined sampleServer = (sampleServer, [])
   \<and> on_clearByAuthor (str ''a'') Undefined sampleServer = (sampleServer, [])"
  using selective_clear_rejects_bad_argument
          [of "Obj [(str ''color'', Num 3), (str ''username'', Str (str ''  '')),
                    (str ''authorId'', Str [])]" "str ''a''" sampleServer]
        selective_clear_rejects_bad_argument [of Undefined "str ''a''" sampleServer]
  by (simp add: str_def trim_def isWhiteSpace_def)

section \<open>Drawing\<close>

text \<open>
  C7. The stroke that the draw handler stores and broadcasts has \<^verbatim>\<open>prevX\<close> (and likewise
  \<^verbatim>\<open>prevY\<close>) \<^verbatim>\<open>null\<close> exactly when the payload's field is absent (\<^verbatim>\<open>undefined\<close> or
  \<^verbatim>\<open>null\<close>); a present value is kept as it is. So a present 0 stays 0 and an absent
  value never becomes 0.
\<close>

theorem draw_keeps_absent_previous_point:
  "let s = safePayload c payload (map_of (connectedSockets st) c) in
     on_draw c payload st = (st\<lparr>strokes := strokes st @ [s]\<rparr>, [(Broadcast c, Draw s)])
     \<and> (stroke_prevX s = Null \<longleftrightarrow> getProp payload ''prevX'' \<in> {Undefined, Null})
     \<and> (stroke_prevY s = Null \<longleftrightarrow> getProp payload ''prevY'' \<in> {Undefined, Null})
     \<and> (getProp payload ''prevX'' \<notin> {Undefined, Null}
          \<longrightarrow> stroke_prevX s = getProp payload ''prevX'')
     \<and> (getProp payload ''prevY'' \<notin> {Undefined, Null}
          \<longrightarrow> stroke_prevY s = getProp payload ''prevY'')
     \<and> (getProp payload ''prevX'' = Num 0 \<longrightarrow> stroke_prevX s = Num 0)
     \<and> (getProp payload ''prevY'' = Num 0 \<longrightarrow> stroke_prevY s = Num 0)
     \<and> (getProp payload ''prevX'' \<in> {Undefined, Null} \<longrightarrow> stroke_prevX s \<noteq> Num 0)
     \<and> (getProp payload ''prevY'' \<in> {Undefined, Null} \<longrightarrow> stroke_prevY s \<noteq> Num 0)"
proof -
  have a: "stroke_prevX (safePayload c payload m) = orNull (getProp payload ''prevX'')" for m
    by (simp add: safePayload_def)
  have b: "stroke_prevY (safePayload c payload m) = orNull (getProp payload ''prevY'')" for m
    by (simp add: safePayload_def)
  show ?thesis
    unfolding Let_def a b on_draw_appends
    using orNull_Null_iff orNull_present by auto
qed

text \<open>A segment starting at x = 0 whose \<^verbatim>\<open>prevY\<close> is missing.\<close>

theorem draw_keeps_absent_previous_point_witness:
  "stroke_prevX (last (strokes (fst (on_draw (str ''a'')
      (Obj [(str ''x'', Num 5), (str ''y'', Num 6), (str ''prevX'', Num 0)]) sampleServer))))
     = Num 0
   \<and> stroke_prevY (last (strokes (fst (on_draw (str ''a'')
      (Obj [(str ''x'', Num 5), (str ''y'', Num 6), (str ''prevX'', Num 0)]) sampleServer))))
     = Null"
  using draw_keeps_absent_previous_point
          [of "str ''a''" "Obj [(str ''x'', Num 5), (str ''y'', Num 6), (str ''prevX'', Num 0)]"
              sampleServer]
  by (simp add: Let_def str_def)

text \<open>
  C10. A draw handled for a socket without a registry entry is not dropped: the stroke is
  appended and broadcast with colour \<^verbatim>\<open>#3333ff\<close>, author name \<^verbatim>\<open>User\<close>, the socket's id
  as author id, and line width 4 when the payload gives no number.
\<close>

theorem draw_without_registry_entry:
  assumes "map_of (connectedSockets st) c = None"
  shows "let s = safePayload c payload None in
           on_draw c payload st = (st\<lparr>strokes := strokes st @ [s]\<rparr>, [(Broadcast c, Draw s)])
           \<and> stroke_color s = str ''#3333ff''
           \<and> stroke_username s = str ''User''
           \<and> stroke_authorId s = c
           \<and> ((\<forall>n. getProp payload ''lineWidth'' \<noteq> Num n) \<longrightarrow> stroke_lineWidth s = 4)"
  using assms by (simp add: on_draw_appends Let_def safePayload_def numberOr_default)

theorem draw_without_registry_entry_witness:
  "on_draw (str ''q'') (Obj [(str ''x'', Num 1), (str ''lineWidth'', Str (str ''9''))])
     (initial 5) =
     (\<lparr>connectedSockets = [],
       strokes = [\<lparr>stroke_x = Num 1, stroke_y = Undefined, stroke_prevX = Null,
                   stroke_prevY = Null, stroke_color = str ''#3333ff'', stroke_lineWidth = 4,
                   stroke_username = str ''User'', stroke_authorId = str ''q''\<rparr>],
       hueSeed = 5\<rparr>,
      [(Broadcast (str ''q''),
        Draw \<lparr>stroke_x = Num 1, stroke_y = Undefined, stroke_prevX = Null,
              stroke_prevY = Null, stroke_color = str ''#3333ff'', stroke_lineWidth = 4,
              stroke_username = str ''User'', stroke_authorId = str ''q''\<rparr>)])"
proof -
  have h: "map_of (connectedSockets (initial 5)) (str ''q'') = None"
    by (simp add: initial_def)
  show ?thesis
    using draw_without_registry_entry
            [OF h, of "Obj [(str ''x'', Num 1), (str ''lineWidth'', Str (str ''9''))]"]
    by (simp add: Let_def initial_def randomBelow_def safePayload_def str_def)
qed

section \<open>Renaming\<close>

text \<open>The placeholder name is \<^verbatim>\<open>User-\<close> and the digits of a number below 10000.\<close>

lemma length_toDecimal: "n < 10 ^ Suc k \<Longrightarrow> length (toDecimal n) \<le> Suc k"
proof (induction k arbitrary: n)
  case 0
  then show ?case by (simp add: toDecimal.simps)
next
  case (Suc k)
  show ?case
  proof (cases "n < 10")
    case True
    then show ?thesis by (simp add: toDecimal.simps)
  next
    case False
    from Suc.prems have "n div 10 < 10 ^ Suc k" by simp
    then have "length (toDecimal (n div 10)) \<le> Suc k" by (rule Suc.IH)
    with False show ?thesis by (subst toDecimal.simps) simp
  qed
qed

lemma length_str [simp]: "length (str s) = length s"
  by (simp add: str_def)

lemma placeholderName_length: "length (placeholderName r) \<le> 9"
proof -
  have "1000 + r mod 9000 < 10 ^ Suc 3" by simp
  then have "length (toDecimal (1000 + r mod 9000)) \<le> Suc 3" by (rule length_toDecimal)
  then show ?thesis by (simp add: placeholderName_def randomBelow_def)
qed

lemma placeholderName_nonempty: "placeholderName r \<noteq> []"
  by (simp add: placeholderName_def str_def)

text \<open>
  \<open>trim\<close> removes whitespace at both ends and nothing else: what it drops is whitespace,
  and what it returns neither starts nor ends with whitespace.
\<close>

lemma trim_decomposition:
  "\<exists>a b. s = a @ trim s @ b \<and> (\<forall>c \<in> set a. isWhiteSpace c) \<and> (\<forall>c \<in> set b. isWhiteSpace c)"
proof -
  let ?t = "dropWhile isWhiteSpace s"
  have 1: "s = takeWhile isWhiteSpace s @ ?t" by simp
  have "rev ?t = takeWhile isWhiteSpace (rev ?t) @ dropWhile isWhiteSpace (rev ?t)" by simp
  then have "?t = rev (dropWhile isWhiteSpace (rev ?t)) @ rev (takeWhile isWhiteSpace (rev ?t))"
    by (metis rev_append rev_rev_ident)
  then have 2: "?t = trim s @ rev (takeWhile isWhiteSpace (rev ?t))"
    by (simp add: trim_def)
  have 3: "\<forall>c \<in> set (takeWhile isWhiteSpace s). isWhiteSpace c"
    by (auto dest: set_takeWhileD)
  have 4: "\<forall>c \<in> set (rev (takeWhile isWhiteSpace (rev ?t))). isWhiteSpace c"
    by (auto dest: set_takeWhileD)
  from 1 2 have "s = takeWhile isWhiteSpace s @ trim s @ rev (takeWhile isWhiteSpace (rev ?t))"
    by simp
  with 3 4 show ?thesis by blast
qed

lemma trim_ends:
  assumes ne: "trim s \<noteq> []"
  shows "\<not> isWhiteSpace (hd (trim s)) \<and> \<not> isWhiteSpace (last (trim s))"
proof -
  let ?t = "dropWhile isWhiteSpace s"
  let ?u = "dropWhile isWhiteSpace (rev ?t)"
  have u: "?u \<noteq> []" using ne by (simp add: trim_def)
  have tne: "?t \<noteq> []"
  proof
    assume e: "?t = []"
    have "?u = []" unfolding e by simp
    with u show False by simp
  qed
  have "\<not> isWhiteSpace (hd ?u)" using u by (rule hd_dropWhile)
  moreover have "last (trim s) = hd ?u" using u by (simp add: trim_def last_rev)
  moreover have "\<not> isWhiteSpace (hd ?t)" using tne by (rule hd_dropWhile)
  moreover have "hd (trim s) = hd ?t"
  proof -
    have "rev ?t = takeWhile isWhiteSpace (rev ?t) @ ?u" by simp
    then have "last (rev ?t) = last ?u" using u by (metis last_appendR)
    moreover have "last (rev ?t) = hd ?t" using tne by (simp add: last_rev)
    moreover have "hd (trim s) = last ?u" using u by (simp add: trim_def hd_rev)
    ultimately show ?thesis by simp
  qed
  ultimately show ?thesis by simp
qed

text \<open>
  C5. A rename from a live connection with the proposed name \<open>P\<close> stores \<open>P\<close> trimmed and
  then cut to 24 code units, or, when that is empty, the placeholder generated for this
  call, which is never empty. The stored name is non-empty and at most 24 long, and the
  stroke log, with the author names recorded in it, is unchanged.
\<close>

theorem setName_sanitizes:
  assumes "map_of (connectedSockets st) c = Some m"
      and "getProp payload ''name'' = Str P"
  shows "let newName = (if take 24 (trim P) = [] then placeholderName r else take 24 (trim P));
             st' = fst (on_setName c payload r st)
         in map_of (connectedSockets st') c = Some (m\<lparr>meta_name := newName\<rparr>)
            \<and> newName \<noteq> [] \<and> length newName \<le> 24
            \<and> placeholderName r \<noteq> []
            \<and> strokes st' = strokes st"
proof -
  have "length (placeholderName r) \<le> 24"
    using placeholderName_length [of r] by simp
  then show ?thesis
    using assms placeholderName_nonempty [of r]
    by (simp add: on_setName_def Let_def slice0_def update_conv')
qed

text \<open>A blank name, and a name longer than 24 with blanks around it.\<close>

theorem setName_sanitizes_witness:
  "map_of (connectedSockets (fst (on_setName (str ''a'') (Obj [(str ''name'', Str (str ''   ''))])
             4242 sampleServer))) (str ''a'')
     = Some (annMeta\<lparr>meta_name := str ''User-5242''\<rparr>)
   \<and> map_of (connectedSockets (fst (on_setName (str ''b'')
             (Obj [(str ''name'', Str (str ''  Robert the painter of very long names  ''))])
             4242 sampleServer))) (str ''b'')
     = Some (bobMeta\<lparr>meta_name := str ''Robert the painter of ve''\<rparr>)
   \<and> strokes (fst (on_setName (str ''a'') (Obj [(str ''name'', Str (str ''   ''))])
             4242 sampleServer)) = strokes sampleServer"
proof -
  have a: "map_of (connectedSockets sampleServer) (str ''a'') = Some annMeta"
    by (simp add: sample_defs)
  have b: "map_of (connectedSockets sampleServer) (str ''b'') = Some bobMeta"
    by (simp add: sample_defs)
  have pa: "getProp (Obj [(str ''name'', Str (str ''   ''))]) ''name'' = Str (str ''   '')"
    by (simp add: str_def)
  have pb: "getProp (Obj [(str ''name'', Str (str ''  Robert the painter of very long names  ''))])
              ''name'' = Str (str ''  Robert the painter of very long names  '')"
    by (simp add: str_def)
  have ta: "take 24 (trim (str ''   '')) = []"
    by (simp add: str_def trim_def isWhiteSpace_def)
  have tb: "take 24 (trim (str ''  Robert the painter of very long names  ''))
              = str ''Robert the painter of ve''"
    by (simp add: str_def trim_def isWhiteSpace_def)
  have n: "placeholderName 4242 = str ''User-5242''"
    by (simp add: placeholderName_def randomBelow_def toDecimal.simps digitChar_def str_def)
  have nb: "str ''Robert the painter of ve'' \<noteq> []"
    by (simp add: str_def)
  show ?thesis
    using setName_sanitizes [OF a pa, of 4242] setName_sanitizes [OF b pb, of 4242]
    by (simp add: Let_def ta tb n nb)
qed

section \<open>Board state\<close>

text \<open>Without a clearing event, every handler appends to the log what it broadcasts as drawn.\<close>

lemma drawn_append: "drawn (xs @ ys) = drawn xs @ drawn ys"
  by (simp add: drawn_def)

lemma freeHueFor_id: "freeHueFor c st = st"
  by (simp add: freeHueFor_def split: option.splits)

lemma on_connection_strokes:
  "strokes (fst (on_connection c rh rn st)) = strokes st
   \<and> drawn (snd (on_connection c rh rn st)) = []"
  by (simp add: on_connection_def Let_def drawn_def emitBoardState_def broadcastUsersCount_def
        broadcastPresence_def split: prod.splits)

lemma on_setName_strokes:
  "strokes (fst (on_setName c payload r st)) = strokes st
   \<and> drawn (snd (on_setName c payload r st)) = []"
  by (simp add: on_setName_def Let_def drawn_def broadcastPresence_def split: option.splits)

lemma on_disconnect_strokes:
  "strokes (fst (on_disconnect c st)) = strokes st
   \<and> drawn (snd (on_disconnect c st)) = []"
  by (simp add: on_disconnect_def Let_def drawn_def freeHueFor_id broadcastUsersCount_def
        broadcastPresence_def)

lemma dispatch_appends:
  "\<not> isClearing e \<Longrightarrow>
     strokes (fst (dispatch e st)) = strokes st @ drawn (snd (dispatch e st))"
proof (cases e)
  case (Connection c rh rn)
  then show ?thesis by (simp add: on_connection_strokes)
next
  case (RequestBoardState c)
  then show ?thesis by (simp add: on_requestBoardState_def emitBoardState_def drawn_def)
next
  case (SetName c payload r)
  then show ?thesis by (simp add: on_setName_strokes)
next
  case (DrawEvent c payload)
  then show ?thesis by (simp add: on_draw_appends drawn_def)
next
  case (Disconnect c)
  then show ?thesis by (simp add: on_disconnect_strokes)
qed simp_all

lemma exec_appends:
  "\<forall>e \<in> set evs. \<not> isClearing e \<Longrightarrow>
     strokes (exec evs st) = strokes st @ drawn (emitted evs st)"
proof (induction evs arbitrary: st)
  case Nil
  then show ?case by (simp add: drawn_def)
next
  case (Cons e evs)
  then have "strokes (exec evs (fst (dispatch e st)))
               = strokes (fst (dispatch e st)) @ drawn (emitted evs (fst (dispatch e st)))"
    by simp
  moreover have "strokes (fst (dispatch e st)) = strokes st @ drawn (snd (dispatch e st))"
    using Cons.prems by (simp add: dispatch_appends)
  ultimately show ?case by (simp add: drawn_append)
qed

text \<open>
  C6. In a run from the start of the process in which nothing is cleared, the board state
  sent in answer to \<^verbatim>\<open>requestBoardState\<close>, and the one sent to a socket when it connects,
  is the list of the strokes appended so far (the strokes the draw handlers broadcast),
  in the order they were appended.
\<close>

theorem boardState_replays_appended_strokes:
  assumes "\<forall>e \<in> set evs. \<not> isClearing e"
  shows "let st = exec evs (initial r0);
             appended = drawn (emitted evs (initial r0))
         in on_requestBoardState c st = (st, [(Socket c, BoardState appended)])
            \<and> (\<exists>i u p. snd (on_connection c rh rn st) =
                          [(Socket c, i), (Socket c, BoardState appended), u, p])"
proof -
  have "strokes (exec evs (initial r0)) = drawn (emitted evs (initial r0))"
    using exec_appends [OF assms, of "initial r0"] by (simp add: initial_def)
  then show ?thesis
    by (simp add: Let_def on_requestBoardState_def emitBoardState_def on_connection_def
          split: prod.splits)
qed

text \<open>After the sample run, a request gets the dot and the segment, in this order.\<close>

theorem boardState_replays_appended_strokes_witness:
  "on_requestBoardState (str ''c'') (exec sampleRun (initial 7)) =
     (exec sampleRun (initial 7),
      [(Socket (str ''c''),
        BoardState
          [\<lparr>stroke_x = Num 1, stroke_y = Num 2, stroke_prevX = Null, stroke_prevY = Null,
            stroke_color = str ''hsl(7 90% 50%)'', stroke_lineWidth = 3,
            stroke_username = str ''User-1000'', stroke_authorId = str ''a''\<rparr>,
           \<lparr>stroke_x = Num 5, stroke_y = Num 6, stroke_prevX = Num 1, stroke_prevY = Num 2,
            stroke_color = str ''hsl(144 90% 50%)'', stroke_lineWidth = 4,
            stroke_username = str ''User-1001'', stroke_authorId = str ''b''\<rparr>])])"
proof -
  have h: "\<forall>e \<in> set sampleRun. \<not> isClearing e"
    by (simp add: sampleRun_def)
  have d: "drawn (emitted sampleRun (initial 7)) =
          [\<lparr>stroke_x = Num 1, stroke_y = Num 2, stroke_prevX = Null, stroke_prevY = Null,
            stroke_color = str ''hsl(7 90% 50%)'', stroke_lineWidth = 3,
            stroke_username = str ''User-1000'', stroke_authorId = str ''a''\<rparr>,
           \<lparr>stroke_x = Num 5, stroke_y = Num 6, stroke_prevX = Num 1, stroke_prevY = Num 2,
            stroke_color = str ''hsl(144 90% 50%)'', stroke_lineWidth = 4,
            stroke_username = str ''User-1001'', stroke_authorId = str ''b''\<rparr>]"
    by (simp add: run_defs drawn_def)
  show ?thesis
    using boardState_replays_appended_strokes [OF h, of 7 "str ''c''"] d
    by (simp add: Let_def)
qed

section \<open>Hue allocation\<close>

text \<open>
  The probe step 137 is invertible modulo 360 (\<open>137 * 113 = 43 * 360 + 1\<close>), so the 360
  probes of one call are 360 different hues.
\<close>

lemma dvd_golden:
  fixes d :: nat
  assumes "360 dvd d * 137"
  shows "360 dvd d"
proof -
  have "360 dvd 113 * (d * 137)" using assms by (rule dvd_mult)
  moreover have "113 * (d * 137) = 360 * (43 * d) + d" by simp
  ultimately have "360 dvd 360 * (43 * d) + d" by simp
  then show ?thesis by (simp only: dvd_add_right_iff dvd_triv_left)
qed

lemma step_inj_le:
  fixes j k seed :: nat
  assumes "k \<le> j" "j < 360" "(seed + j * 137) mod 360 = (seed + k * 137) mod 360"
  shows "j = k"
proof -
  have "seed + k * 137 \<le> seed + j * 137" using assms(1) by simp
  then have "360 dvd (seed + j * 137) - (seed + k * 137)"
    using assms(3) by (simp add: mod_eq_dvd_iff_nat)
  moreover have "(seed + j * 137) - (seed + k * 137) = (j - k) * 137"
    by (simp add: diff_mult_distrib)
  ultimately have "360 dvd (j - k) * 137" by simp
  then have "360 dvd j - k" by (rule dvd_golden)
  moreover have "j - k < 360" using assms(2) by simp
  ultimately have "j - k = 0" by (meson dvd_imp_le not_less zero_less_iff_neq_zero)
  with assms(1) show ?thesis by simp
qed

lemma step_inj:
  fixes j k seed :: nat
  assumes "j < 360" "k < 360" "(seed + j * 137) mod 360 = (seed + k * 137) mod 360"
  shows "j = k"
proof (cases "k \<le> j")
  case True
  then show ?thesis using assms step_inj_le by blast
next
  case False
  then have "j \<le> k" by simp
  then have "k = j" using assms step_inj_le [of j k seed] by simp
  then show ?thesis by simp
qed

lemma inj_on_step: "inj_on (\<lambda>j. ((seed::nat) + j * 137) mod 360) {..<360}"
  by (rule inj_onI) (auto dest: step_inj)

text \<open>What the loop returns: a free hue if it returns one, and nothing only if every probe was taken.\<close>

lemma probe_None:
  "probe used seed i = None \<Longrightarrow> j < 360 \<Longrightarrow> i \<le> j \<Longrightarrow> (seed + j * 137) mod 360 \<in> used"
proof (induction used seed i rule: probe.induct)
  case (1 used seed i)
  from "1.prems" have i: "i < 360" by simp
  from "1.prems"(1) i have here: "(seed + i * 137) mod 360 \<in> used"
    by (subst (asm) probe.simps) (auto split: if_splits)
  from "1.prems"(1) i here have rest: "probe used seed (i + 1) = None"
    by (subst (asm) probe.simps) simp
  show ?case
  proof (cases "j = i")
    case True
    with here show ?thesis by simp
  next
    case False
    with "1.prems" have "i + 1 \<le> j" by simp
    with "1.IH" [OF i _ rest "1.prems"(2)] here show ?thesis by simp
  qed
qed

lemma probe_Some:
  "probe used seed i = Some h \<Longrightarrow> h \<notin> used \<and> h < 360"
proof (induction used seed i rule: probe.induct)
  case (1 used seed i)
  show ?case
  proof (cases "i < 360 \<and> (seed + i * 137) mod 360 \<in> used")
    case True
    then have "probe used seed (i + 1) = Some h"
      using "1.prems" by (subst (asm) probe.simps) simp
    with "1.IH" True show ?thesis by simp
  next
    case False
    then show ?thesis
      using "1.prems" by (subst (asm) probe.simps) (auto split: if_splits)
  qed
qed

lemma probe_first: "seed mod 360 \<notin> used \<Longrightarrow> probe used seed 0 = Some (seed mod 360)"
  by (subst probe.simps) simp

lemma probe_finds:
  assumes "finite used" "card used < 360"
  shows "\<exists>h. probe used seed 0 = Some h"
proof (rule ccontr)
  assume "\<nexists>h. probe used seed 0 = Some h"
  then have none: "probe used seed 0 = None" by simp
  have "(\<lambda>j. (seed + j * 137) mod 360) ` {..<360} \<subseteq> used"
    using probe_None [OF none] by auto
  then have "card ((\<lambda>j. (seed + j * 137) mod 360) ` {..<360}) \<le> card used"
    using assms(1) by (rule card_mono [rotated])
  then have "360 \<le> card used"
    by (simp add: card_image inj_on_step)
  with assms(2) show False by simp
qed


text \<open>The 360 probes are all the hues, so the loop gives up only when every hue is taken.\<close>

lemma step_image: "(\<lambda>j. ((seed::nat) + j * 137) mod 360) ` {..<360} = {..<360}"
proof (rule card_subset_eq)
  show "finite {..<(360::nat)}" by simp
  show "(\<lambda>j. (seed + j * 137) mod 360) ` {..<360} \<subseteq> {..<360}" by auto
  show "card ((\<lambda>j. (seed + j * 137) mod 360) ` {..<360}) = card {..<(360::nat)}"
    by (simp add: card_image inj_on_step)
qed

lemma probe_None_iff: "probe used seed 0 = None \<longleftrightarrow> {..<360} \<subseteq> used"
proof
  assume none: "probe used seed 0 = None"
  have "(\<lambda>j. (seed + j * 137) mod 360) ` {..<360} \<subseteq> used"
    using probe_None [OF none] by auto
  then show "{..<360} \<subseteq> used" by (simp only: step_image)
next
  assume all: "{..<360} \<subseteq> used"
  show "probe used seed 0 = None"
  proof (cases "probe used seed 0")
    case None
    then show ?thesis .
  next
    case (Some h)
    from probe_Some [OF Some] all show ?thesis by auto
  qed
qed

text \<open>The used set is the union of what each entry contributes, at most one hue per entry.\<close>

lemma addUsed_union: "addUsed m used = addUsed m {} \<union> used"
  by (auto simp: addUsed_def split: option.splits)

lemma fold_addUsed: "fold addUsed ms used = (\<Union>m \<in> set ms. addUsed m {}) \<union> used"
proof (induction ms arbitrary: used)
  case Nil
  then show ?case by simp
next
  case (Cons m ms)
  have "fold addUsed (m # ms) used = fold addUsed ms (addUsed m used)" by simp
  also have "\<dots> = (\<Union>m \<in> set ms. addUsed m {}) \<union> addUsed m used" by (rule Cons.IH)
  also have "\<dots> = (\<Union>m \<in> set ms. addUsed m {}) \<union> (addUsed m {} \<union> used)"
    using addUsed_union [of m used] by simp
  finally show ?case by auto
qed

lemma getUsedHues_Union: "getUsedHues reg = (\<Union>m \<in> snd ` set reg. addUsed m {})"
  by (simp add: getUsedHues_def fold_addUsed)

lemma addUsed_Some: "meta_hue m = Some h \<Longrightarrow> addUsed m {} = {h}"
  by (simp add: addUsed_def)

lemma card_addUsed: "finite used \<Longrightarrow> finite (addUsed m used) \<and> card (addUsed m used) \<le> Suc (card used)"
  by (auto simp: addUsed_def card_insert_if split: option.splits)

lemma card_fold_addUsed:
  "finite used \<Longrightarrow>
     finite (fold addUsed ms used) \<and> card (fold addUsed ms used) \<le> card used + length ms"
proof (induction ms arbitrary: used)
  case Nil
  then show ?case by simp
next
  case (Cons m ms)
  from card_addUsed [OF Cons.prems, of m]
  have f: "finite (addUsed m used)" and c: "card (addUsed m used) \<le> Suc (card used)" by simp_all
  from Cons.IH [OF f] c show ?case by simp
qed

lemma finite_getUsedHues: "finite (getUsedHues reg)"
  using card_fold_addUsed [of "{}" "map snd reg"] by (simp add: getUsedHues_def)

lemma card_getUsedHues: "card (getUsedHues reg) \<le> length reg"
  using card_fold_addUsed [of "{}" "map snd reg"] by (simp add: getUsedHues_def)

lemma assignUniqueHue_fresh:
  assumes "card (getUsedHues reg) < 360"
  shows "fst (assignUniqueHue seed reg r) < 360
         \<and> fst (assignUniqueHue seed reg r) \<notin> getUsedHues reg
         \<and> snd (assignUniqueHue seed reg r) = (fst (assignUniqueHue seed reg r) + 137) mod 360"
proof -
  obtain h where h: "probe (getUsedHues reg) seed 0 = Some h"
    using probe_finds [OF finite_getUsedHues assms] by blast
  with probe_Some [OF h] show ?thesis by (simp add: assignUniqueHue_def)
qed

lemma assignUniqueHue_first:
  assumes "seed mod 360 \<notin> getUsedHues reg"
  shows "assignUniqueHue seed reg r = (seed mod 360, (seed mod 360 + 137) mod 360)"
  using probe_first [OF assms] by (simp add: assignUniqueHue_def)

lemma assignUniqueHue_bound: "fst (assignUniqueHue seed reg r) < 360"
  by (auto simp: assignUniqueHue_def randomBelow_def split: option.splits dest: probe_Some)


text \<open>How the handlers change the registry and with it the used set.\<close>

lemma update_fresh: "map_of al k = None \<Longrightarrow> AList.update k v al = al @ [(k, v)]"
  by (induction al) (auto split: if_splits)

lemma set_update_subset: "set (AList.update k v al) \<subseteq> insert (k, v) (set al)"
  by (induction al) auto

lemma set_delete_subset: "set (AList.delete k al) \<subseteq> set al"
  by (auto simp: AList.delete_eq)

lemma getUsedHues_update: "getUsedHues (AList.update k v al) \<subseteq> addUsed v {} \<union> getUsedHues al"
  using set_update_subset [of k v al] by (fastforce simp: getUsedHues_Union)

lemma getUsedHues_delete: "getUsedHues (AList.delete k al) \<subseteq> getUsedHues al"
  using set_delete_subset [of k al] by (fastforce simp: getUsedHues_Union)

lemma addUsed_rename: "addUsed (m\<lparr>meta_name := n\<rparr>) used = addUsed m used"
  by (cases "meta_hue m") (simp_all add: addUsed_def)

lemma getUsedHues_rename:
  assumes "map_of al k = Some m"
  shows "getUsedHues (AList.update k (m\<lparr>meta_name := n\<rparr>) al) \<subseteq> getUsedHues al"
proof -
  have "(k, m) \<in> set al" using assms by (rule map_of_SomeD)
  then have "addUsed m {} \<subseteq> getUsedHues al" by (force simp: getUsedHues_Union)
  with getUsedHues_update [of k "m\<lparr>meta_name := n\<rparr>" al] show ?thesis
    by (auto simp: addUsed_rename)
qed

lemma dispatch_other:
  assumes "\<not> isConnection e"
  shows "hueSeed (fst (dispatch e st)) = hueSeed st
         \<and> getUsedHues (connectedSockets (fst (dispatch e st))) \<subseteq> getUsedHues (connectedSockets st)"
proof (cases e)
  case (Connection c rh rn)
  with assms show ?thesis by simp
next
  case (RequestBoardState c)
  then show ?thesis by (simp add: on_requestBoardState_def)
next
  case (SetName c payload r)
  then show ?thesis
    by (auto simp: on_setName_def Let_def split: option.splits dest: getUsedHues_rename [THEN subsetD])
next
  case (DrawEvent c payload)
  then show ?thesis by (simp add: on_draw_def Let_def)
next
  case (ClearEvent c)
  then show ?thesis by (simp add: on_clear_def Let_def)
next
  case (ClearMine c)
  then show ?thesis by (simp add: on_clearMine_def Let_def)
next
  case (ClearByColor c payload)
  then show ?thesis by (simp add: on_clearByColor_def Let_def split: jsval.splits)
next
  case (ClearByUsername c payload)
  then show ?thesis by (simp add: on_clearByUsername_def Let_def)
next
  case (ClearByAuthor c payload)
  then show ?thesis by (simp add: on_clearByAuthor_def Let_def)
next
  case (RequestClearAll c)
  then show ?thesis by (simp add: on_requestClearAll_def Let_def)
next
  case (Disconnect c)
  then show ?thesis
    using getUsedHues_delete by (simp add: on_disconnect_def Let_def freeHueFor_id)
qed

lemma assignedHues_other:
  "\<not> isConnection e \<Longrightarrow> assignedHues (e # evs) st = assignedHues evs (fst (dispatch e st))"
  by (cases e) simp_all

lemma on_connection_state:
  "fst (on_connection c rh rn st) =
     st\<lparr>connectedSockets :=
          AList.update c
            \<lparr>meta_color = makeColorFromHue (fst (assignUniqueHue (hueSeed st) (connectedSockets st) rh)),
             meta_hue = Some (fst (assignUniqueHue (hueSeed st) (connectedSockets st) rh)),
             meta_name = placeholderName rn\<rparr>
            (connectedSockets st),
        hueSeed := snd (assignUniqueHue (hueSeed st) (connectedSockets st) rh)\<rparr>"
  by (simp add: on_connection_def Let_def split: prod.splits)

lemma on_connection_used:
  "getUsedHues (connectedSockets (fst (on_connection c rh rn st)))
     \<subseteq> insert (fst (assignUniqueHue (hueSeed st) (connectedSockets st) rh))
          (getUsedHues (connectedSockets st))"
  using getUsedHues_update
  by (fastforce simp: on_connection_state addUsed_Some)


text \<open>
  From a state whose used hues are among the first \<open>k\<close> points of the progression
  \<open>s0, s0 + 137, s0 + 2 * 137, \<dots>\<close> (modulo 360) and whose seed is its next point, the
  allocator's first probe is free each time, so a run hands out the next points in order.
\<close>

lemma step_next: "((s0 + k * 137) mod 360 + 137) mod 360 = ((s0::nat) + Suc k * 137) mod 360"
proof -
  have "((s0 + k * 137) mod 360 + 137) mod 360 = (s0 + k * 137 + 137) mod 360"
    by (rule mod_add_left_eq)
  also have "s0 + k * 137 + 137 = s0 + Suc k * 137" by simp
  finally show ?thesis .
qed

lemma step_not_earlier:
  assumes "k < 360"
  shows "((s0::nat) + k * 137) mod 360 \<notin> (\<lambda>j. (s0 + j * 137) mod 360) ` {..<k}"
proof
  assume "(s0 + k * 137) mod 360 \<in> (\<lambda>j. (s0 + j * 137) mod 360) ` {..<k}"
  then obtain j where j: "j < k" "(s0 + k * 137) mod 360 = (s0 + j * 137) mod 360" by auto
  with assms have "k = j" by (intro step_inj [of k j s0]) simp_all
  with j show False by simp
qed

lemma assignedHues_progression:
  assumes "getUsedHues (connectedSockets st) \<subseteq> (\<lambda>j. (s0 + j * 137) mod 360) ` {..<k}"
      and "hueSeed st mod 360 = (s0 + k * 137) mod 360"
      and "k + length (filter isConnection evs) \<le> 360"
  shows "assignedHues evs st =
           map (\<lambda>j. (s0 + j * 137) mod 360) [k ..< k + length (filter isConnection evs)]"
  using assms
proof (induction evs arbitrary: st k)
  case Nil
  then show ?case by simp
next
  case (Cons e evs)
  show ?case
  proof (cases "isConnection e")
    case False
    let ?st' = "fst (dispatch e st)"
    have u: "getUsedHues (connectedSockets ?st') \<subseteq> (\<lambda>j. (s0 + j * 137) mod 360) ` {..<k}"
      using dispatch_other [OF False, of st] Cons.prems(1) by blast
    have s: "hueSeed ?st' mod 360 = (s0 + k * 137) mod 360"
      using dispatch_other [OF False, of st] Cons.prems(2) by simp
    have l: "k + length (filter isConnection evs) \<le> 360"
      using Cons.prems(3) False by simp
    from Cons.IH [OF u s l] False show ?thesis
      by (simp add: assignedHues_other)
  next
    case True
    then obtain c rh rn where Connection: "e = Connection c rh rn"
      by (cases e) auto
    let ?a = "\<lambda>j. (s0 + j * 137) mod 360"
    let ?st' = "fst (dispatch e st)"
    from Cons.prems(3) Connection have k: "k < 360" by simp
    have free: "hueSeed st mod 360 \<notin> getUsedHues (connectedSockets st)"
      using step_not_earlier [OF k, of s0] Cons.prems(1,2) by auto
    have assign: "assignUniqueHue (hueSeed st) (connectedSockets st) rh = (?a k, ?a (Suc k))"
      using assignUniqueHue_first [OF free, of rh] Cons.prems(2) by (simp add: step_next)
    have used': "getUsedHues (connectedSockets ?st') \<subseteq> ?a ` {..<Suc k}"
    proof -
      have "getUsedHues (connectedSockets ?st') \<subseteq> insert (?a k) (getUsedHues (connectedSockets st))"
        using on_connection_used [of c rh rn st] Connection assign by simp
      also have "\<dots> \<subseteq> insert (?a k) (?a ` {..<k})" using Cons.prems(1) by auto
      also have "\<dots> = ?a ` {..<Suc k}" by (simp add: lessThan_Suc)
      finally show ?thesis .
    qed
    have seed': "hueSeed ?st' mod 360 = ?a (Suc k)"
      using Connection assign by (simp add: on_connection_state)
    have len: "Suc k + length (filter isConnection evs) \<le> 360"
      using Cons.prems(3) Connection by simp
    have "assignedHues evs ?st' = map ?a [Suc k ..< Suc k + length (filter isConnection evs)]"
      using Cons.IH [OF used' seed' len] .
    then have "assignedHues (e # evs) st
                 = ?a k # map ?a [Suc k ..< Suc k + length (filter isConnection evs)]"
      using Connection assign by simp
    also have "\<dots> = map ?a (k # [Suc k ..< Suc k + length (filter isConnection evs)])"
      by simp
    also have "k # [Suc k ..< Suc k + length (filter isConnection evs)]
                 = [k ..< k + Suc (length (filter isConnection evs))]"
      by (subst (2) upt_rec) simp
    finally show ?thesis using Connection by simp
  qed
qed


text \<open>
  C1. Whenever fewer than 360 hues are in use, \<^verbatim>\<open>assignUniqueHue\<close> returns a hue in
  \<open>[0, 360)\<close> that is not in use. In a run that starts with an empty registry and has at
  most 360 connects, among events of any other kind, the hues handed out are pairwise
  distinct; this holds in particular when no connection is closed, and also when some
  are. The probing loop visits every hue: it finds nothing only when all 360 are in use.
\<close>

theorem assigned_hues_are_distinct:
  "(card (getUsedHues reg) < 360 \<longrightarrow>
      fst (assignUniqueHue seed reg r) < 360
      \<and> fst (assignUniqueHue seed reg r) \<notin> getUsedHues reg)
   \<and> (connectedSockets st = [] \<and> length (filter isConnection evs) \<le> 360 \<longrightarrow>
      length (assignedHues evs st) = length (filter isConnection evs)
      \<and> distinct (assignedHues evs st))
   \<and> (probe used seed 0 = None \<longleftrightarrow> {..<360} \<subseteq> used)"
proof (intro conjI impI)
  assume "card (getUsedHues reg) < 360"
  then show "fst (assignUniqueHue seed reg r) < 360"
    and "fst (assignUniqueHue seed reg r) \<notin> getUsedHues reg"
    using assignUniqueHue_fresh by blast+
next
  assume a: "connectedSockets st = [] \<and> length (filter isConnection evs) \<le> 360"
  let ?n = "length (filter isConnection evs)"
  let ?a = "\<lambda>j. (hueSeed st + j * 137) mod 360"
  have "getUsedHues (connectedSockets st) \<subseteq> ?a ` {..<0}"
    using a by (simp add: getUsedHues_def)
  moreover have "hueSeed st mod 360 = ?a 0" by simp
  moreover have "0 + ?n \<le> 360" using a by simp
  ultimately have eq: "assignedHues evs st = map ?a [0 ..< 0 + ?n]"
    by (rule assignedHues_progression)
  then show "length (assignedHues evs st) = ?n" by simp
  have "inj_on ?a (set [0 ..< ?n])"
    using a by (intro inj_on_subset [OF inj_on_step]) auto
  then show "distinct (assignedHues evs st)"
    using eq by (simp add: distinct_map)
next
  show "probe used seed 0 = None \<longleftrightarrow> {..<360} \<subseteq> used"
    by (rule probe_None_iff)
qed

text \<open>
  With hues 10 and 147 in use and the seed at 10, the probes 10 and 147 are taken and 284
  is returned; the sample run hands out 7, 144 and 281.
\<close>

theorem assigned_hues_are_distinct_witness:
  "fst (assignUniqueHue 10 (connectedSockets sampleServer) 0) = 284
   \<and> 284 \<notin> getUsedHues (connectedSockets sampleServer)
   \<and> assignedHues sampleRun (initial 7) = [7, 144, 281]
   \<and> distinct (assignedHues sampleRun (initial 7))"
proof -
  note inst = assigned_hues_are_distinct
                [of "connectedSockets sampleServer" 10 0 "initial 7" sampleRun "{}"]
  have c: "card (getUsedHues (connectedSockets sampleServer)) < 360"
    using card_getUsedHues [of "connectedSockets sampleServer"] by (simp add: sample_defs)
  have e1: "fst (assignUniqueHue 10 (connectedSockets sampleServer) 0) = 284"
    by (simp add: sample_defs assignUniqueHue_def getUsedHues_def addUsed_def probe.simps)
  have l: "connectedSockets (initial 7) = [] \<and> length (filter isConnection sampleRun) \<le> 360"
    by (simp add: initial_def sampleRun_def)
  have e2: "assignedHues sampleRun (initial 7) = [7, 144, 281]"
    by (simp add: run_defs)
  show ?thesis
    using inst [THEN conjunct1] inst [THEN conjunct2, THEN conjunct1] c l e1 e2
    by simp
qed

section \<open>The registry's hues\<close>

text \<open>When every entry has a numeric hue, the used set is the set of the entries' hues.\<close>

lemma used_eq_held:
  assumes "None \<notin> set (heldHues reg)"
  shows "Some ` getUsedHues reg = set (heldHues reg)"
proof -
  have some: "\<exists>h. meta_hue m = Some h" if "m \<in> snd ` set reg" for m
  proof -
    from that have "meta_hue m \<in> set (heldHues reg)" by (auto simp: heldHues_def)
    with assms show ?thesis by (cases "meta_hue m") auto
  qed
  have single: "Some ` addUsed m {} = {meta_hue m}" if "m \<in> snd ` set reg" for m
    using some [OF that] by (auto simp: addUsed_Some)
  have "Some ` getUsedHues reg = (\<Union>m \<in> snd ` set reg. Some ` addUsed m {})"
    by (auto simp: getUsedHues_Union)
  also have "\<dots> = (\<Union>m \<in> snd ` set reg. {meta_hue m})"
    using single by simp
  also have "\<dots> = set (heldHues reg)"
    by (auto simp: heldHues_def)
  finally show ?thesis .
qed

lemma heldHues_rename:
  "map_of al k = Some m \<Longrightarrow> heldHues (AList.update k (m\<lparr>meta_name := n\<rparr>) al) = heldHues al"
  by (induction al) (auto simp: heldHues_def split: if_splits)

lemma heldHues_delete:
  "None \<notin> set (heldHues al) \<Longrightarrow> distinct (heldHues al) \<Longrightarrow>
     None \<notin> set (heldHues (AList.delete k al)) \<and> distinct (heldHues (AList.delete k al))"
  by (auto simp: heldHues_def AList.delete_eq distinct_map_filter)

lemma on_connection_held:
  assumes none: "None \<notin> set (heldHues (connectedSockets st))"
      and dist: "distinct (heldHues (connectedSockets st))"
      and fresh: "map_of (connectedSockets st) c = None"
      and bound: "length (connectedSockets (fst (on_connection c rh rn st))) \<le> 360"
  shows "None \<notin> set (heldHues (connectedSockets (fst (on_connection c rh rn st))))
         \<and> distinct (heldHues (connectedSockets (fst (on_connection c rh rn st))))"
proof -
  let ?reg = "connectedSockets st"
  let ?hue = "fst (assignUniqueHue (hueSeed st) ?reg rh)"
  let ?m = "\<lparr>meta_color = makeColorFromHue ?hue, meta_hue = Some ?hue,
             meta_name = placeholderName rn\<rparr>"
  have reg': "connectedSockets (fst (on_connection c rh rn st)) = ?reg @ [(c, ?m)]"
    using update_fresh [OF fresh] by (simp add: on_connection_state)
  with bound have "length ?reg < 360" by simp
  with card_getUsedHues [of ?reg] have "card (getUsedHues ?reg) < 360" by simp
  then have "?hue \<notin> getUsedHues ?reg" using assignUniqueHue_fresh by blast
  then have "Some ?hue \<notin> Some ` getUsedHues ?reg" by blast
  then have "Some ?hue \<notin> set (heldHues ?reg)" using used_eq_held [OF none] by simp
  with none dist show ?thesis by (simp add: reg' heldHues_def)
qed

lemma dispatch_keeps_held:
  assumes none: "None \<notin> set (heldHues (connectedSockets st))"
      and dist: "distinct (heldHues (connectedSockets st))"
      and fresh: "case e of Connection c rh rn \<Rightarrow> map_of (connectedSockets st) c = None | _ \<Rightarrow> True"
      and bound: "length (connectedSockets (fst (dispatch e st))) \<le> 360"
  shows "None \<notin> set (heldHues (connectedSockets (fst (dispatch e st))))
         \<and> distinct (heldHues (connectedSockets (fst (dispatch e st))))"
proof (cases e)
  case (Connection c rh rn)
  with on_connection_held [OF none dist, of c rh rn] fresh bound show ?thesis by simp
next
  case (RequestBoardState c)
  with none dist show ?thesis by (simp add: on_requestBoardState_def)
next
  case (SetName c payload r)
  with none dist show ?thesis
    by (auto simp: on_setName_def Let_def heldHues_rename split: option.splits)
next
  case (DrawEvent c payload)
  with none dist show ?thesis by (simp add: on_draw_def Let_def)
next
  case (ClearEvent c)
  with none dist show ?thesis by (simp add: on_clear_def Let_def)
next
  case (ClearMine c)
  with none dist show ?thesis by (simp add: on_clearMine_def Let_def)
next
  case (ClearByColor c payload)
  with none dist show ?thesis by (simp add: on_clearByColor_def Let_def split: jsval.splits)
next
  case (ClearByUsername c payload)
  with none dist show ?thesis by (simp add: on_clearByUsername_def Let_def)
next
  case (ClearByAuthor c payload)
  with none dist show ?thesis by (simp add: on_clearByAuthor_def Let_def)
next
  case (RequestClearAll c)
  with none dist show ?thesis by (simp add: on_requestClearAll_def Let_def)
next
  case (Disconnect c)
  with heldHues_delete [OF none dist, of c] show ?thesis
    by (simp add: on_disconnect_def Let_def freeHueFor_id)
qed

lemma exec_keeps_held:
  "admissible 360 evs st \<Longrightarrow> None \<notin> set (heldHues (connectedSockets st)) \<Longrightarrow>
     distinct (heldHues (connectedSockets st)) \<Longrightarrow>
     None \<notin> set (heldHues (connectedSockets (exec evs st)))
     \<and> distinct (heldHues (connectedSockets (exec evs st)))"
proof (induction evs arbitrary: st)
  case Nil
  then show ?case by simp
next
  case (Cons e evs)
  from Cons.prems(1)
  have fresh: "case e of Connection c rh rn \<Rightarrow> map_of (connectedSockets st) c = None | _ \<Rightarrow> True"
    and bound: "length (connectedSockets (fst (dispatch e st))) \<le> 360"
    and rest: "admissible 360 evs (fst (dispatch e st))"
    by simp_all
  from dispatch_keeps_held [OF Cons.prems(2,3) fresh bound] Cons.IH [OF rest]
  show ?case by simp
qed

text \<open>
  C8. In every state of a run from the start of the process in which a connecting
  socket's id is new and at most 360 connections are live at any time, the used hues
  that \<^verbatim>\<open>getUsedHues\<close> computes are exactly the hues of the registry's entries, and no
  two entries have the same hue.
\<close>

theorem used_hues_are_the_live_hues:
  assumes "admissible 360 evs (initial r0)"
  shows "let reg = connectedSockets (exec evs (initial r0))
         in Some ` getUsedHues reg = set (heldHues reg) \<and> distinct (heldHues reg)"
proof -
  have "None \<notin> set (heldHues (connectedSockets (initial r0)))"
    and "distinct (heldHues (connectedSockets (initial r0)))"
    by (simp_all add: initial_def heldHues_def)
  from exec_keeps_held [OF assms this] used_eq_held show ?thesis
    by (simp add: Let_def)
qed


text \<open>After the sample run the registry holds \<open>b\<close> with hue 144 and \<open>c\<close> with hue 281.\<close>

theorem used_hues_are_the_live_hues_witness:
  "admissible 360 sampleRun (initial 7)
   \<and> heldHues (connectedSockets (exec sampleRun (initial 7))) = [Some 144, Some 281]
   \<and> Some ` getUsedHues (connectedSockets (exec sampleRun (initial 7))) = {Some 144, Some 281}
   \<and> distinct (heldHues (connectedSockets (exec sampleRun (initial 7))))"
proof -
  have h: "admissible 360 sampleRun (initial 7)"
    by (simp add: run_defs)
  have e: "heldHues (connectedSockets (exec sampleRun (initial 7))) = [Some 144, Some 281]"
    by (simp add: run_defs heldHues_def)
  show ?thesis
    using used_hues_are_the_live_hues [OF h] h e
    by (simp add: Let_def insert_commute)
qed

end
